theory Spec2Isabelle
  imports Main "HOL-Library.AList"
begin

section \<open>The person store (src/app/store/person.store.ts)\<close>

text \<open>
  A shallow embedding of \<^verbatim>\<open>PersonStore\<close>, the component store that keeps a list of
  people and a single-record edit workflow. The class is translated at run-time
  level: TypeScript types are erased, so a field declared \<^verbatim>\<open>number | undefined\<close>
  holds whatever JavaScript value the code writes into it.
\<close>

subsection \<open>JavaScript values, objects and the heap\<close>

text \<open>
  The only operations the store applies to a number are \<^verbatim>\<open>===\<close>, \<^verbatim>\<open>!==\<close> and \<^verbatim>\<open>!\<close>.
  For these a number is either \<^verbatim>\<open>NaN\<close> (never equal to anything, falsy) or an ordinary
  value compared by value; identifiers are integers, and \<^verbatim>\<open>-0 === 0\<close> so the two
  zeros are one value here.
\<close>

datatype number = Finite int | NaN

datatype jsval = VUndef | VNum number | VStr string | VRef nat

text \<open>
  A plain data object is its list of own enumerable properties; objects live in a heap
  and are referred to by address (\<open>VRef\<close>), so that two references to one object can
  be told from two equal objects. Allocation appends to the heap.
\<close>

type_synonym obj = "(string \<times> jsval) list"

type_synonym heap = "obj list"

definition deref :: "heap \<Rightarrow> nat \<Rightarrow> obj" where
  \<comment> \<open>the object at an address; addresses held by a program always lie in the heap\<close>
  "deref h r = (if r < length h then h ! r else [])"

definition get_prop :: "obj \<Rightarrow> string \<Rightarrow> jsval" where
  \<comment> \<open>\<^verbatim>\<open>o.k\<close>: a missing property reads as \<^verbatim>\<open>undefined\<close>\<close>
  "get_prop ob k = (case map_of ob k of None \<Rightarrow> VUndef | Some v \<Rightarrow> v)"

definition assign_prop :: "nat \<Rightarrow> string \<Rightarrow> jsval \<Rightarrow> heap \<Rightarrow> heap" where
  \<comment> \<open>\<^verbatim>\<open>r.k = v\<close>, the mutation of one object in place\<close>
  "assign_prop r k v h = (if r < length h then h[r := AList.update k v (h ! r)] else h)"

definition strict_eq :: "jsval \<Rightarrow> jsval \<Rightarrow> bool" where
  \<comment> \<open>\<^verbatim>\<open>a === b\<close>: by value on primitives, by address on objects, false on \<^verbatim>\<open>NaN\<close>\<close>
  "strict_eq a b = (a = b \<and> a \<noteq> VNum NaN)"

fun falsy :: "jsval \<Rightarrow> bool" where
  \<comment> \<open>\<^verbatim>\<open>!x\<close>\<close>
  "falsy VUndef = True"
| "falsy (VNum (Finite n)) = (n = 0)"
| "falsy (VNum NaN) = True"
| "falsy (VStr s) = (s = [])"
| "falsy (VRef r) = False"

definition spread :: "nat option \<Rightarrow> heap \<Rightarrow> nat \<times> heap" where
  \<comment> \<open>\<^verbatim>\<open>{ ...x }\<close> for \<open>x\<close> an object or \<^verbatim>\<open>undefined\<close>: a new object with the own
      properties of \<open>x\<close>, and with none when \<open>x\<close> is \<^verbatim>\<open>undefined\<close>\<close>
  "spread x h =
     (length h, h @ [case x of None \<Rightarrow> [] | Some r \<Rightarrow> deref h r])"

subsection \<open>State\<close>

record PersonState =
  people :: "nat list"
  editId :: jsval
  editedPerson :: jsval

definition defaultState :: PersonState where
  "defaultState = \<lparr>people = [], editId = VUndef, editedPerson = VUndef\<rparr>"

datatype log_entry =
    LogEditedPerson jsval  \<comment> \<open>\<^verbatim>\<open>console.log('editedPerson:', Person)\<close>\<close>
  | LogError jsval  \<comment> \<open>\<^verbatim>\<open>console.log(error)\<close>\<close>

text \<open>
  Everything the store can read or write: the heap, the store's state, the console,
  and the save pipeline built in the constructor. \<open>subscribed\<close> says that the
  subscription to \<^verbatim>\<open>saveData$\<close> is open; \<open>calls\<close> lists the arguments of every
  \<^verbatim>\<open>savePerson\<close> call made so far, a call being named by its index; \<open>inner\<close> is the
  call \<^verbatim>\<open>switchMap\<close> is currently subscribed to.
\<close>

record world =
  heap :: heap
  st :: PersonState
  console :: "log_entry list"
  subscribed :: bool
  inner :: "nat option"
  calls :: "(jsval \<times> jsval) list"

definition init :: world where
  \<comment> \<open>after the constructor: \<^verbatim>\<open>withLatestFrom\<close> has subscribed to \<^verbatim>\<open>editedPerson$\<close>, whose
      \<^verbatim>\<open>tap\<close> has logged the initial value\<close>
  "init = \<lparr>heap = [], st = defaultState, console = [LogEditedPerson VUndef],
           subscribed = True, inner = None, calls = []\<rparr>"

subsection \<open>Updaters\<close>

definition setState :: "(PersonState \<Rightarrow> PersonState) \<Rightarrow> world \<Rightarrow> world" where
  \<comment> \<open>an updater's run: the new state is published; \<^verbatim>\<open>editedPerson$\<close> emits when its
      value changed (\<^verbatim>\<open>select\<close> is distinct-until-changed by \<^verbatim>\<open>===\<close>), and the \<^verbatim>\<open>tap\<close> on it
      logs the emission for the pipeline's subscriber, while that one is subscribed\<close>
  "setState f w =
     (let s' = f (st w) in
      w\<lparr>st := s',
        console := console w @
          (if subscribed w \<and> \<not> strict_eq (editedPerson s') (editedPerson (st w))
           then [LogEditedPerson (editedPerson s')] else [])\<rparr>)"

definition loadPeople :: "nat list option \<Rightarrow> world \<Rightarrow> world" where
  \<comment> \<open>\<^verbatim>\<open>people: people || []\<close>; \<open>None\<close> is \<^verbatim>\<open>null\<close>, and every array is truthy\<close>
  "loadPeople ps = setState (\<lambda>s. s\<lparr>people := (case ps of None \<Rightarrow> [] | Some xs \<Rightarrow> xs)\<rparr>)"

definition setEditId :: "jsval \<Rightarrow> world \<Rightarrow> world" where
  "setEditId i = setState (\<lambda>s. s\<lparr>editId := i\<rparr>)"

definition setEditedPerson :: "jsval \<Rightarrow> world \<Rightarrow> world" where
  "setEditedPerson p = setState (\<lambda>s. s\<lparr>editedPerson := p\<rparr>)"

subsection \<open>The edit selector\<close>

definition find_person :: "heap \<Rightarrow> nat list \<Rightarrow> jsval \<Rightarrow> nat option" where
  \<comment> \<open>\<^verbatim>\<open>people.find((person) => person.id === id)\<close>\<close>
  "find_person h ps i = List.find (\<lambda>r. strict_eq (get_prop (deref h r) ''id'') i) ps"

definition editPerson :: "jsval \<Rightarrow> world \<Rightarrow> world" where
  \<comment> \<open>the body of the effect, run once for the value passed to \<^verbatim>\<open>editPerson\<close>\<close>
  "editPerson i w =
     (let ps = people (st w);
          w1 = setEditId i w;
          personToEdit =
            (if falsy i \<and> \<not> strict_eq i (VNum (Finite 0)) then None
             else find_person (heap w1) ps i);
          (r, h') = spread personToEdit (heap w1)
      in setEditedPerson (VRef r) (w1\<lparr>heap := h'\<rparr>))"

definition clearEditedPerson :: "world \<Rightarrow> world" where
  "clearEditedPerson w = setEditedPerson VUndef (setEditId VUndef w)"

definition cancelEditPerson :: "world \<Rightarrow> world" where
  "cancelEditPerson w = clearEditedPerson w"

subsection \<open>The save pipeline\<close>

definition saveEditPerson :: "world \<Rightarrow> world" where
  \<comment> \<open>\<^verbatim>\<open>saveEditPerson$.next()\<close>: an open pipeline takes the latest edited person and
      edit id, drops the call it was waiting for and calls \<^verbatim>\<open>savePerson\<close>; a closed
      one is no observer of the subject any more\<close>
  "saveEditPerson w =
     (if subscribed w
      then w\<lparr>calls := calls w @ [(editedPerson (st w), editId (st w))],
             inner := Some (length (calls w))\<rparr>
      else w)"

definition save_next :: "nat \<Rightarrow> jsval \<Rightarrow> world \<Rightarrow> world" where
  \<comment> \<open>call \<open>k\<close> emits \<open>person\<close>: the \<^verbatim>\<open>next\<close> handler, when \<open>k\<close> is the call waited for\<close>
  "save_next k person w =
     (if subscribed w \<and> inner w = Some k
      then clearEditedPerson (editPerson person w)
      else w)"

definition save_error :: "nat \<Rightarrow> jsval \<Rightarrow> world \<Rightarrow> world" where
  \<comment> \<open>call \<open>k\<close> fails: the \<^verbatim>\<open>error\<close> handler, and the end of the subscription\<close>
  "save_error k e w =
     (if subscribed w \<and> inner w = Some k
      then w\<lparr>console := console w @ [LogError e], subscribed := False, inner := None\<rparr>
      else w)"

definition save_complete :: "nat \<Rightarrow> world \<Rightarrow> world" where
  "save_complete k w =
     (if subscribed w \<and> inner w = Some k then w\<lparr>inner := None\<rparr> else w)"

definition ngOnDestroy :: "world \<Rightarrow> world" where
  \<comment> \<open>\<^verbatim>\<open>this.sub.unsubscribe()\<close>\<close>
  "ngOnDestroy w = w\<lparr>subscribed := False, inner := None\<rparr>"

subsection \<open>Runs\<close>

datatype event =
    LoadPeople "nat list option"
  | SetEditId jsval
  | SetEditedPerson jsval
  | EditPerson jsval
  | CancelEditPerson
  | SaveEditPerson
  | SaveNext nat jsval
  | SaveError nat jsval
  | SaveComplete nat
  | Destroy
  | Alloc obj  \<comment> \<open>the environment creates an object\<close>
  | Assign nat string jsval  \<comment> \<open>the environment writes a property of an object\<close>

fun step :: "event \<Rightarrow> world \<Rightarrow> world" where
  "step (LoadPeople ps) w = loadPeople ps w"
| "step (SetEditId i) w = setEditId i w"
| "step (SetEditedPerson p) w = setEditedPerson p w"
| "step (EditPerson i) w = editPerson i w"
| "step CancelEditPerson w = cancelEditPerson w"
| "step SaveEditPerson w = saveEditPerson w"
| "step (SaveNext k v) w = save_next k v w"
| "step (SaveError k e) w = save_error k e w"
| "step (SaveComplete k) w = save_complete k w"
| "step Destroy w = ngOnDestroy w"
| "step (Alloc ob) w = w\<lparr>heap := heap w @ [ob]\<rparr>"
| "step (Assign r k v) w = w\<lparr>heap := assign_prop r k v (heap w)\<rparr>"

fun run :: "event list \<Rightarrow> world \<Rightarrow> world" where
  "run [] w = w"
| "run (e # es) w = run es (step e w)"

subsection \<open>Predicates on states and runs\<close>

definition edit_consistent :: "PersonState \<Rightarrow> bool" where
  \<comment> \<open>no edit id, no edited person\<close>
  "edit_consistent s = (editId s = VUndef \<longrightarrow> editedPerson s = VUndef)"

definition wf_world :: "world \<Rightarrow> bool" where
  \<comment> \<open>every entry of \<^verbatim>\<open>people\<close> is the address of an object of the heap\<close>
  "wf_world w = (\<forall>r \<in> set (people (st w)). r < length (heap w))"

definition waits_for_latest :: "world \<Rightarrow> bool" where
  \<comment> \<open>the pipeline is open and waits for the answer to the newest call\<close>
  "waits_for_latest w =
     (subscribed w \<and> calls w \<noteq> [] \<and> inner w = Some (length (calls w) - 1))"

fun is_command :: "event \<Rightarrow> bool" where
  \<comment> \<open>the events that are neither a save trigger, nor an answer of the service, nor
      the teardown\<close>
  "is_command SaveEditPerson = False"
| "is_command (SaveNext k v) = False"
| "is_command (SaveError k e) = False"
| "is_command (SaveComplete k) = False"
| "is_command Destroy = False"
| "is_command e = True"

subsection \<open>Sample data\<close>

definition luke :: obj where
  "luke = [(''id'', VNum (Finite 1)), (''name'', VStr ''Luke'')]"

definition leia :: obj where
  "leia = [(''id'', VNum (Finite 2)), (''name'', VStr ''Leia'')]"

definition luke_x :: obj where
  "luke_x = [(''id'', VNum (Finite 1)), (''name'', VStr ''Luke X'')]"

definition loaded :: world where
  \<comment> \<open>a fresh store after \<^verbatim>\<open>loadPeople([luke, leia])\<close>; a third object, not in the list, is
      the record the service will answer with\<close>
  "loaded = run [Alloc luke, Alloc leia, Alloc luke_x, LoadPeople (Some [0, 1])] init"

definition saving :: world where
  \<comment> \<open>person 1 selected, the copy renamed by the form, and the save triggered\<close>
  "saving =
     run [EditPerson (VNum (Finite 1)), Assign 3 ''name'' (VStr ''Luke X''), SaveEditPerson]
       loaded"

definition yoda :: obj where
  "yoda = [(''id'', VNum (Finite 0)), (''name'', VStr ''Yoda'')]"

definition loaded_zero :: world where
  \<comment> \<open>a list whose second record has the id 0\<close>
  "loaded_zero = run [Alloc leia, Alloc yoda, LoadPeople (Some [0, 1])] init"

section \<open>Verification\<close>

subsection \<open>Basic facts\<close>

lemma st_setState [simp]: "st (setState f w) = f (st w)"
  by (simp add: setState_def Let_def)

lemma heap_setState [simp]: "heap (setState f w) = heap w"
  by (simp add: setState_def Let_def)

lemma subscribed_setState [simp]: "subscribed (setState f w) = subscribed w"
  by (simp add: setState_def Let_def)

lemma inner_setState [simp]: "inner (setState f w) = inner w"
  by (simp add: setState_def Let_def)

lemma calls_setState [simp]: "calls (setState f w) = calls w"
  by (simp add: setState_def Let_def)

lemma st_editPerson:
  "st (editPerson i w) = (st w)\<lparr>editId := i, editedPerson := VRef (length (heap w))\<rparr>"
  by (simp add: editPerson_def setEditId_def setEditedPerson_def spread_def Let_def)

lemma heap_editPerson:
  "heap (editPerson i w) = heap w @
     [case (if falsy i \<and> \<not> strict_eq i (VNum (Finite 0)) then None
            else find_person (heap w) (people (st w)) i) of
        None \<Rightarrow> [] | Some r \<Rightarrow> deref (heap w) r]"
  by (simp add: editPerson_def setEditId_def setEditedPerson_def spread_def Let_def
      cong: option.case_cong)

lemma pipe_editPerson [simp]:
  "subscribed (editPerson i w) = subscribed w"
  "inner (editPerson i w) = inner w"
  "calls (editPerson i w) = calls w"
  by (simp_all add: editPerson_def setEditId_def setEditedPerson_def spread_def Let_def)

lemma st_clearEditedPerson:
  "st (clearEditedPerson w) = (st w)\<lparr>editId := VUndef, editedPerson := VUndef\<rparr>"
  by (simp add: clearEditedPerson_def setEditId_def setEditedPerson_def)

lemma rest_clearEditedPerson [simp]:
  "heap (clearEditedPerson w) = heap w"
  "subscribed (clearEditedPerson w) = subscribed w"
  "inner (clearEditedPerson w) = inner w"
  "calls (clearEditedPerson w) = calls w"
  by (simp_all add: clearEditedPerson_def setEditId_def setEditedPerson_def)

lemma run_append: "run (es @ fs) w = run fs (run es w)"
  by (induction es arbitrary: w) simp_all

lemma command_pipe:
  assumes "is_command e"
  shows "subscribed (step e w) = subscribed w \<and> inner (step e w) = inner w
    \<and> calls (step e w) = calls w"
  using assms
  by (cases e) (simp_all add: loadPeople_def setEditId_def setEditedPerson_def cancelEditPerson_def)

lemma commands_pipe:
  assumes "\<forall>e \<in> set es. is_command e"
  shows "subscribed (run es w) = subscribed w \<and> inner (run es w) = inner w
    \<and> calls (run es w) = calls w"
  using assms
proof (induction es arbitrary: w)
  case Nil
  then show ?case by simp
next
  case (Cons e es)
  then have "is_command e" and rest: "\<forall>x \<in> set es. is_command x" by simp_all
  from command_pipe [OF this(1), of w] Cons.IH [OF rest, of "step e w"]
  show ?case by simp
qed

subsection \<open>The sample worlds, evaluated\<close>

lemma loaded_eq:
  "loaded = \<lparr>heap = [luke, leia, luke_x],
     st = \<lparr>people = [0, 1], editId = VUndef, editedPerson = VUndef\<rparr>,
     console = [LogEditedPerson VUndef], subscribed = True, inner = None, calls = []\<rparr>"
  by (simp add: loaded_def init_def defaultState_def loadPeople_def setState_def strict_eq_def)

lemma find_loaded:
  "find_person (luke # leia # h) [0, Suc 0] (VNum (Finite 1)) = Some 0"
  "find_person (luke # leia # h) [0, Suc 0] (VNum (Finite 5)) = None"
  "find_person (luke # leia # h) [0, Suc 0] (VRef r) = None"
  by (simp_all add: find_person_def deref_def get_prop_def strict_eq_def luke_def leia_def)

lemma saving_eq:
  "saving = \<lparr>heap = [luke, leia, luke_x, luke_x],
     st = \<lparr>people = [0, 1], editId = VNum (Finite 1), editedPerson = VRef 3\<rparr>,
     console = [LogEditedPerson VUndef, LogEditedPerson (VRef 3)],
     subscribed = True, inner = Some 0, calls = [(VRef 3, VNum (Finite 1))]\<rparr>"
proof -
  have "editPerson (VNum (Finite 1)) loaded =
    \<lparr>heap = [luke, leia, luke_x, luke],
     st = \<lparr>people = [0, 1], editId = VNum (Finite 1), editedPerson = VRef 3\<rparr>,
     console = [LogEditedPerson VUndef, LogEditedPerson (VRef 3)],
     subscribed = True, inner = None, calls = []\<rparr>"
    by (simp add: loaded_eq editPerson_def setEditId_def setEditedPerson_def
        setState_def spread_def strict_eq_def find_loaded deref_def)
  moreover have "AList.update ''name'' (VStr ''Luke X'') luke = luke_x"
    by (simp add: luke_def luke_x_def)
  ultimately show ?thesis
    by (simp add: saving_def assign_prop_def saveEditPerson_def)
qed

lemma loaded_zero_eq:
  "loaded_zero = \<lparr>heap = [leia, yoda],
     st = \<lparr>people = [0, 1], editId = VUndef, editedPerson = VUndef\<rparr>,
     console = [LogEditedPerson VUndef], subscribed = True, inner = None, calls = []\<rparr>"
  by (simp add: loaded_zero_def init_def defaultState_def loadPeople_def setState_def strict_eq_def)

subsection \<open>Selecting an identifier that is not in the list\<close>

text \<open>
  Claim C1 says that selecting an identifier absent from \<^verbatim>\<open>people\<close>, or selecting
  \<^verbatim>\<open>undefined\<close>, leaves \<^verbatim>\<open>editedPerson\<close> undefined. The code computes \<^verbatim>\<open>personToEdit\<close> as
  \<^verbatim>\<open>undefined\<close> and then stores \<^verbatim>\<open>{ ...personToEdit }\<close>, which is a new empty object: with
  Luke (id 1) and Leia (id 2) loaded, selecting 5 and selecting \<^verbatim>\<open>undefined\<close> both set
  \<^verbatim>\<open>editId\<close> as requested and leave \<^verbatim>\<open>editedPerson\<close> pointing to the fresh object at
  address 3, which has no property.
\<close>

theorem editPerson_absent_id_yields_empty_object:
  "editId (st (editPerson (VNum (Finite 5)) loaded)) = VNum (Finite 5) \<and>
   editedPerson (st (editPerson (VNum (Finite 5)) loaded)) = VRef 3 \<and>
   deref (heap (editPerson (VNum (Finite 5)) loaded)) 3 = [] \<and>
   editId (st (editPerson VUndef loaded)) = VUndef \<and>
   editedPerson (st (editPerson VUndef loaded)) = VRef 3 \<and>
   deref (heap (editPerson VUndef loaded)) 3 = [] \<and>
   editedPerson (st (editPerson (VNum (Finite 5)) loaded)) \<noteq> VUndef \<and>
   editedPerson (st (editPerson VUndef loaded)) \<noteq> VUndef"
  by (simp add: st_editPerson heap_editPerson loaded_eq find_loaded deref_def strict_eq_def)

subsection \<open>Cancelling\<close>

text \<open>
  Claim C8: from every state, \<^verbatim>\<open>cancelEditPerson()\<close> sets \<^verbatim>\<open>editId\<close> and \<^verbatim>\<open>editedPerson\<close>
  to \<^verbatim>\<open>undefined\<close> and leaves \<^verbatim>\<open>people\<close> as it is. It is a total function, so it never
  fails; the heap and the save pipeline are untouched as well.
\<close>

theorem cancelEditPerson_clears:
  "editId (st (cancelEditPerson w)) = VUndef \<and>
   editedPerson (st (cancelEditPerson w)) = VUndef \<and>
   people (st (cancelEditPerson w)) = people (st w) \<and>
   heap (cancelEditPerson w) = heap w \<and>
   subscribed (cancelEditPerson w) = subscribed w \<and>
   inner (cancelEditPerson w) = inner w \<and>
   calls (cancelEditPerson w) = calls w"
  by (simp add: cancelEditPerson_def st_clearEditedPerson)

subsection \<open>Loading\<close>

lemma st_loadPeople:
  "st (loadPeople a w) = (st w)\<lparr>people := (case a of None \<Rightarrow> [] | Some xs \<Rightarrow> xs)\<rparr>"
  by (simp add: loadPeople_def)

lemma loads_keep_edit:
  "editId (st (run (map LoadPeople args) w)) = editId (st w) \<and>
   editedPerson (st (run (map LoadPeople args) w)) = editedPerson (st w)"
  by (induction args arbitrary: w) (simp_all add: st_loadPeople)

text \<open>
  Claim C9: after any sequence of \<^verbatim>\<open>loadPeople\<close> calls, \<^verbatim>\<open>people\<close> is the sequence given
  to the last call, or the empty sequence when that call was given \<^verbatim>\<open>null\<close>, and
  \<^verbatim>\<open>editId\<close> and \<^verbatim>\<open>editedPerson\<close> are what they were before the first call. The calls
  before the last one are arbitrary, so this holds after each call of the sequence.
\<close>

theorem loadPeople_latest_wins:
  "people (st (run (map LoadPeople (args @ [a])) w)) = (case a of None \<Rightarrow> [] | Some xs \<Rightarrow> xs) \<and>
   editId (st (run (map LoadPeople (args @ [a])) w)) = editId (st w) \<and>
   editedPerson (st (run (map LoadPeople (args @ [a])) w)) = editedPerson (st w)"
proof -
  have "people (st (run (map LoadPeople (args @ [a])) w))
      = (case a of None \<Rightarrow> [] | Some xs \<Rightarrow> xs)"
    by (simp add: run_append st_loadPeople)
  with loads_keep_edit [of "args @ [a]" w] show ?thesis by blast
qed

subsection \<open>The invariant between edit id and edited person\<close>

lemma st_save_next:
  "st (save_next k v w) =
     (if subscribed w \<and> inner w = Some k
      then (st w)\<lparr>editId := VUndef, editedPerson := VUndef\<rparr> else st w)"
  by (simp add: save_next_def st_clearEditedPerson st_editPerson)

text \<open>
  Claim C2 says that every operation preserves: whenever \<^verbatim>\<open>editId\<close> is undefined,
  \<^verbatim>\<open>editedPerson\<close> is undefined. The two setters replace one field each, so they do not:
  on the loaded store, where both fields are undefined, \<^verbatim>\<open>setEditedPerson(luke)\<close> leaves
  an edited person without an edit id; and after \<^verbatim>\<open>editPerson(1)\<close>,
  \<^verbatim>\<open>setEditId(undefined)\<close> removes the edit id and keeps the edited person.
\<close>

theorem setters_break_edit_consistent:
  "edit_consistent (st loaded) \<and>
   \<not> edit_consistent (st (setEditedPerson (VRef 0) loaded)) \<and>
   edit_consistent (st (editPerson (VNum (Finite 1)) loaded)) \<and>
   \<not> edit_consistent (st (setEditId VUndef (editPerson (VNum (Finite 1)) loaded)))"
  by (simp add: edit_consistent_def setEditedPerson_def setEditId_def st_editPerson loaded_eq)

text \<open>
  Claim C2 as amended: the invariant is preserved by \<^verbatim>\<open>loadPeople\<close>, by
  \<^verbatim>\<open>cancelEditPerson\<close> and by the handler of a successful save, whatever their
  arguments; by \<^verbatim>\<open>setEditId\<close> and by \<^verbatim>\<open>editPerson\<close> when they are given a defined value;
  and by \<^verbatim>\<open>setEditedPerson\<close> when it is given \<^verbatim>\<open>undefined\<close>.
\<close>

theorem edit_consistent_preserved:
  assumes "edit_consistent (st w)" and "i \<noteq> VUndef"
  shows "edit_consistent (st (loadPeople ps w)) \<and>
    edit_consistent (st (setEditId i w)) \<and>
    edit_consistent (st (setEditedPerson VUndef w)) \<and>
    edit_consistent (st (editPerson i w)) \<and>
    edit_consistent (st (cancelEditPerson w)) \<and>
    edit_consistent (st (save_next k v w))"
  using assms
  by (simp add: edit_consistent_def st_loadPeople setEditId_def setEditedPerson_def
      st_editPerson cancelEditPerson_def st_clearEditedPerson st_save_next)

text \<open>The loaded store satisfies the invariant, and so does it after each of these.\<close>

theorem edit_consistent_preserved_witness:
  "edit_consistent (st loaded) \<and> VNum (Finite 1) \<noteq> VUndef \<and>
   edit_consistent (st (loadPeople None loaded)) \<and>
   edit_consistent (st (setEditId (VNum (Finite 1)) loaded)) \<and>
   edit_consistent (st (setEditedPerson VUndef loaded)) \<and>
   edit_consistent (st (editPerson (VNum (Finite 1)) loaded)) \<and>
   edit_consistent (st (cancelEditPerson loaded)) \<and>
   edit_consistent (st (save_next 0 (VRef 2) loaded))"
proof -
  have h: "edit_consistent (st loaded)"
    by (simp add: edit_consistent_def loaded_eq)
  from edit_consistent_preserved [OF h, of "VNum (Finite 1)" None 0 "VRef 2"] h
  show ?thesis by simp
qed

subsection \<open>What the save handler selects\<close>

text \<open>
  Claim C3 says that the handler of a successful save runs the edit selector on the
  id of the saved person. The handler calls \<^verbatim>\<open>this.editPerson(person)\<close>: the selection is
  the saved object itself. In the world \<open>saving\<close> the service answers call 0 with the
  object at address 2, whose id is 1. The handler is then the selector on \<open>VRef 2\<close>
  followed by the clearing: the selector sets \<^verbatim>\<open>editId\<close> to the object, finds no person
  whose id is that object, and stores the empty object at address 4, which the console
  is given. Selecting the id 1 would have set \<^verbatim>\<open>editId\<close> to 1 and stored a copy of Luke.
\<close>

theorem save_success_selects_person_object:
  "step (SaveNext 0 (VRef 2)) saving = clearEditedPerson (editPerson (VRef 2) saving) \<and>
   deref (heap saving) 2 = luke_x \<and>
   get_prop luke_x ''id'' = VNum (Finite 1) \<and>
   editId (st (editPerson (VRef 2) saving)) = VRef 2 \<and>
   deref (heap (editPerson (VRef 2) saving)) 4 = [] \<and>
   editId (st (editPerson (VNum (Finite 1)) saving)) = VNum (Finite 1) \<and>
   deref (heap (editPerson (VNum (Finite 1)) saving)) 4 = luke \<and>
   heap (step (SaveNext 0 (VRef 2)) saving) = [luke, leia, luke_x, luke_x, []] \<and>
   console (step (SaveNext 0 (VRef 2)) saving) =
     [LogEditedPerson VUndef, LogEditedPerson (VRef 3), LogEditedPerson (VRef 4),
      LogEditedPerson VUndef]"
proof -
  have a: "step (SaveNext 0 (VRef 2)) saving = clearEditedPerson (editPerson (VRef 2) saving)"
    by (simp add: save_next_def saving_eq)
  have b: "deref (heap saving) 2 = luke_x"
    by (simp add: saving_eq deref_def)
  have c: "get_prop luke_x ''id'' = VNum (Finite 1)"
    by (simp add: get_prop_def luke_x_def)
  have d: "editId (st (editPerson (VRef 2) saving)) = VRef 2"
    by (simp add: st_editPerson)
  have e: "heap (editPerson (VRef 2) saving) = [luke, leia, luke_x, luke_x, []]"
    by (simp add: heap_editPerson saving_eq find_loaded)
  have e': "deref (heap (editPerson (VRef 2) saving)) 4 = []"
    unfolding e by (simp add: deref_def)
  have f: "editId (st (editPerson (VNum (Finite 1)) saving)) = VNum (Finite 1)"
    by (simp add: st_editPerson)
  have g: "heap (editPerson (VNum (Finite 1)) saving) = [luke, leia, luke_x, luke_x, luke]"
    by (simp add: heap_editPerson saving_eq find_loaded deref_def strict_eq_def)
  have g': "deref (heap (editPerson (VNum (Finite 1)) saving)) 4 = luke"
    unfolding g by (simp add: deref_def)
  have h: "heap (step (SaveNext 0 (VRef 2)) saving) = [luke, leia, luke_x, luke_x, []]"
    unfolding a by (simp add: e)
  have c': "console (step (SaveNext 0 (VRef 2)) saving) =
     [LogEditedPerson VUndef, LogEditedPerson (VRef 3), LogEditedPerson (VRef 4),
      LogEditedPerson VUndef]"
    unfolding a
    by (simp add: clearEditedPerson_def editPerson_def setEditId_def setEditedPerson_def
        setState_def spread_def strict_eq_def saving_eq Let_def)
  from a b c d e' f g' h c' show ?thesis by blast
qed

subsection \<open>A successful save\<close>

text \<open>
  Claim C4: a save is triggered on an open pipeline; the application may go on with any
  commands; when the service answers that call with a value, \<^verbatim>\<open>editId\<close> and
  \<^verbatim>\<open>editedPerson\<close> are both undefined.
\<close>

theorem save_success_clears_edit_state:
  assumes "subscribed w" and "\<forall>e \<in> set es. is_command e"
  shows "editId (st (run (SaveEditPerson # es @ [SaveNext (length (calls w)) v]) w)) = VUndef \<and>
    editedPerson (st (run (SaveEditPerson # es @ [SaveNext (length (calls w)) v]) w)) = VUndef"
proof -
  let ?w1 = "saveEditPerson w"
  let ?w2 = "run es ?w1"
  have "subscribed ?w1" and "inner ?w1 = Some (length (calls w))"
    using assms(1) by (simp_all add: saveEditPerson_def)
  with commands_pipe [OF assms(2), of ?w1]
  have "subscribed ?w2 \<and> inner ?w2 = Some (length (calls w))" by simp
  then have "st (save_next (length (calls w)) v ?w2)
      = (st ?w2)\<lparr>editId := VUndef, editedPerson := VUndef\<rparr>"
    by (simp add: st_save_next)
  then show ?thesis by (simp add: run_append)
qed

text \<open>Person 1 is selected, saved, the list is emptied meanwhile, and the save succeeds.\<close>

theorem save_success_clears_edit_state_witness:
  "subscribed (editPerson (VNum (Finite 1)) loaded) \<and>
   editId (st (run [SaveEditPerson, LoadPeople None, SaveNext 0 (VRef 2)]
     (editPerson (VNum (Finite 1)) loaded))) = VUndef \<and>
   editedPerson (st (run [SaveEditPerson, LoadPeople None, SaveNext 0 (VRef 2)]
     (editPerson (VNum (Finite 1)) loaded))) = VUndef"
proof -
  have h: "subscribed (editPerson (VNum (Finite 1)) loaded)"
    by (simp add: loaded_eq)
  have c: "\<forall>e \<in> set [LoadPeople None]. is_command e" by simp
  have l: "length (calls (editPerson (VNum (Finite 1)) loaded)) = 0"
    by (simp add: loaded_eq)
  from save_success_clears_edit_state [OF h c, of "VRef 2"] h l
  show ?thesis by simp
qed

subsection \<open>A failed save\<close>

text \<open>
  Claim C6: when the save triggered on an open pipeline fails, the state and the heap are
  what they were before the trigger, the console has received one more entry, the
  error, the service has been called once, with the edited person and the edit id, and
  is not called again, and the pipeline is closed. Nothing else exists in the world for
  the failure to reach. Whenever an answer of the service is an error, whatever happened
  before, the state and the heap are left as they are.
\<close>

theorem save_failure_logs_once:
  assumes "subscribed w"
  shows "st (run [SaveEditPerson, SaveError (length (calls w)) e] w) = st w \<and>
    heap (run [SaveEditPerson, SaveError (length (calls w)) e] w) = heap w \<and>
    console (run [SaveEditPerson, SaveError (length (calls w)) e] w) = console w @ [LogError e] \<and>
    calls (run [SaveEditPerson, SaveError (length (calls w)) e] w) =
      calls w @ [(editedPerson (st w), editId (st w))] \<and>
    inner (run [SaveEditPerson, SaveError (length (calls w)) e] w) = None \<and>
    \<not> subscribed (run [SaveEditPerson, SaveError (length (calls w)) e] w) \<and>
    st (step (SaveError k e) w') = st w' \<and>
    heap (step (SaveError k e) w') = heap w'"
  using assms by (simp add: saveEditPerson_def save_error_def)

text \<open>Person 1 is selected and the save fails.\<close>

theorem save_failure_logs_once_witness:
  "subscribed (editPerson (VNum (Finite 1)) loaded) \<and>
   st (run [SaveEditPerson, SaveError 0 (VStr ''offline'')] (editPerson (VNum (Finite 1)) loaded))
     = \<lparr>people = [0, 1], editId = VNum (Finite 1), editedPerson = VRef 3\<rparr> \<and>
   console (run [SaveEditPerson, SaveError 0 (VStr ''offline'')]
       (editPerson (VNum (Finite 1)) loaded))
     = [LogEditedPerson VUndef, LogEditedPerson (VRef 3), LogError (VStr ''offline'')]"
proof -
  have h: "subscribed (editPerson (VNum (Finite 1)) loaded)"
    by (simp add: loaded_eq)
  have l: "length (calls (editPerson (VNum (Finite 1)) loaded)) = 0"
    by (simp add: loaded_eq)
  have s: "st (editPerson (VNum (Finite 1)) loaded)
      = \<lparr>people = [0, 1], editId = VNum (Finite 1), editedPerson = VRef 3\<rparr>"
    by (simp add: st_editPerson loaded_eq)
  have c: "console (editPerson (VNum (Finite 1)) loaded)
      = [LogEditedPerson VUndef, LogEditedPerson (VRef 3)]"
    by (simp add: editPerson_def setEditId_def setEditedPerson_def
        setState_def spread_def strict_eq_def loaded_eq Let_def)
  from save_failure_logs_once [OF h, of "VStr ''offline''" 0 loaded] h
  show ?thesis unfolding l s c by simp
qed

subsection \<open>Selecting an identifier that is in the list\<close>

lemma find_person_present:
  assumes "r0 \<in> set ps" and "get_prop (deref h r0) ''id'' = VNum (Finite n)"
  shows "\<exists>j < length ps. find_person h ps (VNum (Finite n)) = Some (ps ! j) \<and>
    get_prop (deref h (ps ! j)) ''id'' = VNum (Finite n) \<and>
    (\<forall>j' < j. get_prop (deref h (ps ! j')) ''id'' \<noteq> VNum (Finite n))"
proof -
  let ?P = "\<lambda>r. strict_eq (get_prop (deref h r) ''id'') (VNum (Finite n))"
  have "?P r0" using assms(2) by (simp add: strict_eq_def)
  with assms(1) have "List.find ?P ps \<noteq> None"
    by (auto simp: find_None_iff)
  then obtain r where "List.find ?P ps = Some r" by blast
  then obtain j where "j < length ps" "?P (ps ! j)" "r = ps ! j" "\<forall>j' < j. \<not> ?P (ps ! j')"
    by (auto simp: find_Some_iff)
  with \<open>List.find ?P ps = Some r\<close> show ?thesis
    by (auto simp: find_person_def strict_eq_def)
qed

lemma deref_assign_other:
  assumes "p \<noteq> r"
  shows "deref (assign_prop r k v h) p = deref h p"
  using assms by (simp add: deref_def assign_prop_def)

lemma deref_append_old:
  assumes "p < length h"
  shows "deref (h @ [ob]) p = deref h p"
  using assms by (simp add: deref_def nth_append)

text \<open>
  Claim C5: let a number \<open>n\<close>, zero or not, be the id of some person of the list, in a
  world whose list holds addresses of the heap. Then \<^verbatim>\<open>editPerson(n)\<close> sets \<^verbatim>\<open>editId\<close> to
  \<open>n\<close> and \<^verbatim>\<open>editedPerson\<close> to a new object, at an address that is not in the list, whose
  properties are those of the first person of the list with that id; the list is
  unchanged, and writing any property of the new object leaves every person of the
  list as it was.
\<close>

theorem editPerson_present_copies:
  assumes "wf_world w"
    and "r0 \<in> set (people (st w))"
    and "get_prop (deref (heap w) r0) ''id'' = VNum (Finite n)"
  shows "\<exists>j < length (people (st w)).
    get_prop (deref (heap w) (people (st w) ! j)) ''id'' = VNum (Finite n) \<and>
    (\<forall>j' < j. get_prop (deref (heap w) (people (st w) ! j')) ''id'' \<noteq> VNum (Finite n)) \<and>
    editId (st (editPerson (VNum (Finite n)) w)) = VNum (Finite n) \<and>
    editedPerson (st (editPerson (VNum (Finite n)) w)) = VRef (length (heap w)) \<and>
    deref (heap (editPerson (VNum (Finite n)) w)) (length (heap w))
      = deref (heap w) (people (st w) ! j) \<and>
    people (st (editPerson (VNum (Finite n)) w)) = people (st w) \<and>
    length (heap w) \<notin> set (people (st w)) \<and>
    (\<forall>p \<in> set (people (st w)). \<forall>k v.
      deref (assign_prop (length (heap w)) k v (heap (editPerson (VNum (Finite n)) w))) p
        = deref (heap w) p)"
proof -
  let ?ps = "people (st w)" and ?h = "heap w" and ?i = "VNum (Finite n)"
  from find_person_present [OF assms(2,3)]
  obtain j where j: "j < length ?ps" "find_person ?h ?ps ?i = Some (?ps ! j)"
    "get_prop (deref ?h (?ps ! j)) ''id'' = ?i"
    "\<forall>j' < j. get_prop (deref ?h (?ps ! j')) ''id'' \<noteq> ?i"
    by blast
  have sel: "(falsy ?i \<and> \<not> strict_eq ?i (VNum (Finite 0))) = False"
    by (simp add: strict_eq_def)
  have hp: "heap (editPerson ?i w) = ?h @ [deref ?h (?ps ! j)]"
    unfolding heap_editPerson sel by (simp add: j(2))
  have old: "\<forall>p \<in> set ?ps. p < length ?h"
    using assms(1) by (simp add: wf_world_def)
  then have fresh: "length ?h \<notin> set ?ps" by auto
  have copy: "deref (heap (editPerson ?i w)) (length ?h) = deref ?h (?ps ! j)"
    unfolding hp by (simp add: deref_def)
  have frame: "\<forall>p \<in> set ?ps. \<forall>k v.
      deref (assign_prop (length ?h) k v (heap (editPerson ?i w))) p = deref ?h p"
  proof (intro ballI allI)
    fix p k v
    assume p: "p \<in> set ?ps"
    with old fresh have "p < length ?h" and "p \<noteq> length ?h" by auto
    then show "deref (assign_prop (length ?h) k v (heap (editPerson ?i w))) p = deref ?h p"
      unfolding hp by (simp add: deref_assign_other deref_append_old)
  qed
  from j(1,3,4) copy fresh frame show ?thesis
    by (auto simp: st_editPerson)
qed

text \<open>Yoda has the id 0 and comes second; he is selected, and the copy renamed.\<close>

lemma find_zero:
  "find_person [leia, yoda] [0, Suc 0] (VNum (Finite 0)) = Some (Suc 0)"
  by (simp add: find_person_def deref_def get_prop_def strict_eq_def yoda_def leia_def)

theorem editPerson_present_copies_witness:
  "wf_world loaded_zero \<and> 1 \<in> set (people (st loaded_zero)) \<and>
   get_prop (deref (heap loaded_zero) 1) ''id'' = VNum (Finite 0) \<and>
   editId (st (editPerson (VNum (Finite 0)) loaded_zero)) = VNum (Finite 0) \<and>
   editedPerson (st (editPerson (VNum (Finite 0)) loaded_zero)) = VRef 2 \<and>
   deref (heap (editPerson (VNum (Finite 0)) loaded_zero)) 2 = yoda \<and>
   deref (assign_prop 2 ''name'' (VStr ''Master Yoda'')
     (heap (editPerson (VNum (Finite 0)) loaded_zero))) 1 = yoda"
proof -
  have a: "wf_world loaded_zero"
    by (simp add: wf_world_def loaded_zero_eq)
  have b: "1 \<in> set (people (st loaded_zero))"
    by (simp add: loaded_zero_eq)
  have c: "get_prop (deref (heap loaded_zero) 1) ''id'' = VNum (Finite 0)"
    by (simp add: loaded_zero_eq deref_def get_prop_def yoda_def)
  have d: "deref (heap loaded_zero) 1 = yoda"
    by (simp add: loaded_zero_eq deref_def)
  have e: "heap (editPerson (VNum (Finite 0)) loaded_zero) = [leia, yoda, yoda]"
    by (simp add: heap_editPerson loaded_zero_eq find_zero strict_eq_def deref_def)
  have f: "length (heap loaded_zero) = 2"
    by (simp add: loaded_zero_eq)
  from editPerson_present_copies [OF a b c] obtain j where
    "editId (st (editPerson (VNum (Finite 0)) loaded_zero)) = VNum (Finite 0)"
    "editedPerson (st (editPerson (VNum (Finite 0)) loaded_zero)) = VRef (length (heap loaded_zero))"
    "\<forall>p \<in> set (people (st loaded_zero)). \<forall>k v.
      deref (assign_prop (length (heap loaded_zero)) k v
        (heap (editPerson (VNum (Finite 0)) loaded_zero))) p = deref (heap loaded_zero) p"
    by blast
  with a b c d f show ?thesis
    by (simp add: e deref_def)
qed

subsection \<open>Superseded saves\<close>

lemma waits_saveEditPerson:
  assumes "subscribed w"
  shows "waits_for_latest (saveEditPerson w)"
  using assms by (simp add: waits_for_latest_def saveEditPerson_def)

lemma waits_step:
  assumes "waits_for_latest w" and "is_command e \<or> e = SaveEditPerson"
  shows "waits_for_latest (step e w) \<and> length (calls w) \<le> length (calls (step e w))"
proof (cases "e = SaveEditPerson")
  case True
  from assms(1) have "subscribed w"
    by (simp add: waits_for_latest_def)
  from waits_saveEditPerson [OF this] True show ?thesis
    by (simp add: saveEditPerson_def)
next
  case False
  with assms(2) have "is_command e" by simp
  from command_pipe [OF this, of w] assms(1) show ?thesis
    by (simp add: waits_for_latest_def)
qed

lemma waits_run:
  assumes "waits_for_latest w" and "\<forall>e \<in> set es. is_command e \<or> e = SaveEditPerson"
  shows "waits_for_latest (run es w) \<and> length (calls w) \<le> length (calls (run es w))"
  using assms
proof (induction es arbitrary: w)
  case Nil
  then show ?case by simp
next
  case (Cons e es)
  then have e: "is_command e \<or> e = SaveEditPerson"
    and es: "\<forall>x \<in> set es. is_command x \<or> x = SaveEditPerson"
    by simp_all
  from waits_step [OF Cons.prems(1) e]
  have "waits_for_latest (step e w)" and "length (calls w) \<le> length (calls (step e w))"
    by simp_all
  with Cons.IH [OF this(1) es] show ?case by simp
qed

text \<open>
  Claim C7: a save is triggered on an open pipeline and, before any answer arrives,
  saves are triggered again, with any commands in between and after; \<open>w'\<close> is the world
  then. The first save is not the newest call. An answer to any call but the newest,
  be it a value, an error or the completion, leaves the world as it is; a value
  answering the newest call runs the handler of a successful save, and an error
  answering it is logged and closes the pipeline.
\<close>

theorem only_latest_save_is_heard:
  assumes "subscribed w"
    and "\<forall>x \<in> set es. is_command x \<or> x = SaveEditPerson"
    and "\<forall>x \<in> set fs. is_command x"
    and "w' = run (SaveEditPerson # es @ SaveEditPerson # fs) w"
    and "k \<noteq> length (calls w') - 1"
  shows "length (calls w) < length (calls w') - 1 \<and>
    step (SaveNext k v) w' = w' \<and>
    step (SaveError k e) w' = w' \<and>
    step (SaveComplete k) w' = w' \<and>
    step (SaveNext (length (calls w') - 1) v) w' = clearEditedPerson (editPerson v w') \<and>
    step (SaveError (length (calls w') - 1) e) w' =
      w'\<lparr>console := console w' @ [LogError e], subscribed := False, inner := None\<rparr>"
proof -
  let ?w1 = "run es (saveEditPerson w)"
  let ?w2 = "saveEditPerson ?w1"
  have "waits_for_latest (saveEditPerson w)"
    using assms(1) by (rule waits_saveEditPerson)
  from waits_run [OF this assms(2)]
  have w1: "waits_for_latest ?w1"
    and len: "length (calls (saveEditPerson w)) \<le> length (calls ?w1)"
    by simp_all
  have "length (calls (saveEditPerson w)) = Suc (length (calls w))"
    using assms(1) by (simp add: saveEditPerson_def)
  with len have len1: "Suc (length (calls w)) \<le> length (calls ?w1)" by simp
  from w1 have w2: "subscribed ?w2" "inner ?w2 = Some (length (calls ?w1))"
    "calls ?w2 = calls ?w1 @ [(editedPerson (st ?w1), editId (st ?w1))]"
    by (simp_all add: waits_for_latest_def saveEditPerson_def)
  have w': "w' = run fs ?w2"
    using assms(4) by (simp add: run_append)
  from commands_pipe [OF assms(3), of ?w2] w2
  have "subscribed w'" "inner w' = Some (length (calls w') - 1)"
    "length (calls w') = Suc (length (calls ?w1))"
    unfolding w' by simp_all
  with assms(5) len1 show ?thesis
    by (simp add: save_next_def save_error_def save_complete_def)
qed

text \<open>
  Two saves, the second after selecting person 1: the answers to call 0 are not heard,
  the answer to call 1 clears the edit state.
\<close>

theorem only_latest_save_is_heard_witness:
  "subscribed loaded \<and>
   calls (run [SaveEditPerson, EditPerson (VNum (Finite 1)), SaveEditPerson] loaded)
     = [(VUndef, VUndef), (VRef 3, VNum (Finite 1))] \<and>
   step (SaveNext 0 (VRef 2))
       (run [SaveEditPerson, EditPerson (VNum (Finite 1)), SaveEditPerson] loaded)
     = run [SaveEditPerson, EditPerson (VNum (Finite 1)), SaveEditPerson] loaded \<and>
   step (SaveError 0 (VStr ''offline''))
       (run [SaveEditPerson, EditPerson (VNum (Finite 1)), SaveEditPerson] loaded)
     = run [SaveEditPerson, EditPerson (VNum (Finite 1)), SaveEditPerson] loaded \<and>
   editedPerson (st (step (SaveNext 1 (VRef 2))
       (run [SaveEditPerson, EditPerson (VNum (Finite 1)), SaveEditPerson] loaded))) = VUndef"
proof -
  let ?w' = "run [SaveEditPerson, EditPerson (VNum (Finite 1)), SaveEditPerson] loaded"
  have s: "subscribed loaded" by (simp add: loaded_eq)
  have c: "calls ?w' = [(VUndef, VUndef), (VRef 3, VNum (Finite 1))]"
    by (simp add: saveEditPerson_def st_editPerson loaded_eq)
  have es: "\<forall>x \<in> set [EditPerson (VNum (Finite 1))]. is_command x \<or> x = SaveEditPerson"
    by simp
  have fs: "\<forall>x \<in> set []. is_command x"
    by simp
  have r: "?w' = run (SaveEditPerson # [EditPerson (VNum (Finite 1))] @ SaveEditPerson # []) loaded"
    by simp
  have k: "(0::nat) \<noteq> length (calls ?w') - 1"
    unfolding c by simp
  have l: "length (calls ?w') - 1 = 1"
    unfolding c by simp
  from only_latest_save_is_heard [OF s es fs r k, of "VRef 2" "VStr ''offline''"]
  have "step (SaveNext 0 (VRef 2)) ?w' = ?w'" "step (SaveError 0 (VStr ''offline'')) ?w' = ?w'"
    "step (SaveNext 1 (VRef 2)) ?w' = clearEditedPerson (editPerson (VRef 2) ?w')"
    unfolding l by simp_all
  with s c show ?thesis
    by (simp add: st_clearEditedPerson)
qed

subsection \<open>After a failed save\<close>

lemma closed_step:
  assumes "\<not> subscribed w"
  shows "\<not> subscribed (step x w) \<and> calls (step x w) = calls w"
  using assms
  by (cases x)
    (simp_all add: loadPeople_def setEditId_def setEditedPerson_def cancelEditPerson_def
      saveEditPerson_def save_next_def save_error_def save_complete_def ngOnDestroy_def)

lemma closed_run:
  assumes "\<not> subscribed w"
  shows "\<not> subscribed (run es w) \<and> calls (run es w) = calls w"
  using assms
proof (induction es arbitrary: w)
  case Nil
  then show ?case by simp
next
  case (Cons x es)
  from closed_step [OF Cons.prems, of x] Cons.IH [of "step x w"]
  show ?case by simp
qed

text \<open>
  Claim C10: once the save waited for has failed, whatever happens next, the pipeline
  stays closed and the list of calls made to the service stays what it was; a further
  \<^verbatim>\<open>saveEditPerson()\<close> leaves the world as it is, and so does a value arriving from the
  service.
\<close>

theorem no_save_after_failure:
  assumes "subscribed w" and "inner w = Some k"
  shows "\<not> subscribed (run es (save_error k e w)) \<and>
    calls (run es (save_error k e w)) = calls w \<and>
    saveEditPerson (run es (save_error k e w)) = run es (save_error k e w) \<and>
    save_next j v (run es (save_error k e w)) = run es (save_error k e w)"
proof -
  have "\<not> subscribed (save_error k e w)" and c: "calls (save_error k e w) = calls w"
    using assms by (simp_all add: save_error_def)
  from closed_run [OF this(1), of es] c show ?thesis
    by (simp add: saveEditPerson_def save_next_def)
qed

text \<open>The save of \<open>saving\<close> fails; later triggers call nothing and change nothing.\<close>

theorem no_save_after_failure_witness:
  "subscribed saving \<and> inner saving = Some 0 \<and>
   calls (run [SaveEditPerson, CancelEditPerson, SaveEditPerson]
     (save_error 0 (VStr ''offline'') saving)) = [(VRef 3, VNum (Finite 1))] \<and>
   run [SaveEditPerson, SaveEditPerson] (save_error 0 (VStr ''offline'') saving)
     = save_error 0 (VStr ''offline'') saving"
proof -
  have s: "subscribed saving" and i: "inner saving = Some 0"
    and c: "calls saving = [(VRef 3, VNum (Finite 1))]"
    by (simp_all add: saving_eq)
  from no_save_after_failure [OF s i, of "[SaveEditPerson, CancelEditPerson, SaveEditPerson]"
      "VStr ''offline''" 0 VUndef]
    no_save_after_failure [OF s i, of "[]" "VStr ''offline''" 0 VUndef]
    s i c
  show ?thesis by simp
qed

end
